theory Spec2Isabelle
  imports Main "HOL-Library.Word" "HOL-Library.Sublist"
begin

section \<open>Data of the tracked chain\<close>

text \<open>
  Go's \<open>uint64\<close> is a 64-bit word: addition and subtraction wrap around. An
  \<open>ethgo.Hash\<close> is 32 bytes, an \<open>ethgo.Address\<close> 20 bytes; both are compared
  as wholes only, so they are words of 256 and 160 bits.
\<close>

type_synonym uint64 = "64 word"
type_synonym hash = "256 word"
type_synonym address = "160 word"

text \<open>The fields of \<open>ethgo.Block\<close> and \<open>ethgo.Log\<close> that the tracker reads.\<close>

record block =
  Number :: uint64
  Hash :: hash
  ParentHash :: hash

record log =
  Address :: address
  Topics :: "hash list"
  Data :: "8 word list"
  BlockNumber :: uint64
  LogIndex :: uint64

text \<open>
  A Go \<open>error\<close> value. \<open>Err\<close> is an error made by a collaborator (provider,
  store, block container), \<open>Wrap\<close> is \<open>fmt.Errorf("... %w", err)\<close>, and
  \<open>PanicIndexOutOfRange\<close> is the run-time panic of an index expression on a slice
  that is too short. A function that returns \<open>error\<close> returns \<open>error option\<close>,
  \<open>None\<close> being \<open>nil\<close>.
\<close>

datatype error = Err string | Wrap string error | PanicIndexOutOfRange

text \<open>
  \<open>ethgo.LogFilter\<close> as \<open>getLogsQuery\<close> fills it: the addresses (collected from
  a Go map in no fixed order, hence a set) and the block range.
\<close>

record logquery =
  qAddress :: "address set"
  qFrom :: uint64
  qTo :: uint64

section \<open>Configuration and collaborators\<close>

text \<open>
  \<open>PolybftTrackerConfig\<close>. The provider and the store are interfaces; their methods
  are fields that give the answer to each call. The logger and the poll interval have no
  effect on the state and are left out.
\<close>

record config =
  StartBlockFromConfig :: uint64
  NumBlockConfirmations :: uint64
  SyncBatchSize :: uint64
  MaxBacklogSize :: uint64
  LogFilter :: "address \<rightharpoonup> hash list"
  GetBlockByNumber :: "uint64 \<Rightarrow> error + block"
  GetLogs :: "logquery \<Rightarrow> error + log list"
  GetLastProcessedBlock :: "error + uint64"
  InsertLastProcessedBlock :: "uint64 \<Rightarrow> error option"
  InsertLogs :: "log list \<Rightarrow> error option"

text \<open>
  Every call the tracker makes on a collaborator or on its block container, in the order
  it is made. \<open>AddLog_call\<close> is \<open>EventSubscriber.AddLog\<close>.
\<close>

datatype call =
    GetBlockByNumber_call uint64
  | GetLogs_call logquery
  | AddLog_call log
  | InsertLastProcessedBlock_call uint64
  | InsertLogs_call "log list"
  | CleanState_call
  | AddBlock_call block
  | RemoveBlocks_call uint64 uint64

section \<open>The block container\<close>

text \<open>
  Modelled from the spec: the type \<open>TrackerBlockContainer\<close> is not among the source
  files. The spec's confirmation window has a watermark \<open>lastProcessed\<close>, an ordered
  \<open>cache\<close> of headers and \<open>lastCached\<close>, the highest cached number (equal to
  \<open>lastProcessed\<close> when the cache is empty).
\<close>

record container =
  lastProcessed :: uint64
  cache :: "block list"
  lastCached :: uint64

text \<open>
  Modelled from the spec: \<open>NewTrackerBlockContainer\<close> is missing; the watermark read at
  startup seeds the window, whose cache is empty.
\<close>

definition NewTrackerBlockContainer :: "uint64 \<Rightarrow> container" where
  "NewTrackerBlockContainer lastProcessedBlock =
     \<lparr>lastProcessed = lastProcessedBlock, cache = [], lastCached = lastProcessedBlock\<rparr>"

text \<open>Modelled from the spec: \<open>LastProcessedBlock\<close> is missing; it reads the watermark.\<close>

definition LastProcessedBlock :: "container \<Rightarrow> uint64" where
  "LastProcessedBlock c = lastProcessed c"


text \<open>
  Modelled from the spec: \<open>AddBlock\<close> is missing. The spec's \<open>append\<close> adds the header
  to the cache and advances \<open>lastCached\<close>; it is a no-op, not an error, if
  \<open>block.number \<le> lastCached\<close>.
\<close>

definition AddBlock :: "container \<Rightarrow> block \<Rightarrow> container" where
  "AddBlock c b =
     (if Number b \<le> lastCached c then c
      else c\<lparr>cache := cache c @ [b], lastCached := Number b\<rparr>)"

text \<open>
  Modelled from the spec: the confirmation test of the missing block container. A block
  number is confirmed when \<open>lastCached - number \<ge> confirmations\<close> (a difference of
  numbers, not of words).
\<close>

definition confirmed :: "container \<Rightarrow> uint64 \<Rightarrow> uint64 \<Rightarrow> bool" where
  "confirmed c confirmations n = (uint (lastCached c) - uint n \<ge> uint confirmations)"

text \<open>
  Modelled from the spec: \<open>GetConfirmedBlocks\<close> is missing. The spec's
  \<open>confirmedRange\<close> is the contiguous prefix of cached numbers that are confirmed, or
  none (Go's \<open>nil\<close>) if the oldest cached entry is not yet confirmed.
\<close>

definition GetConfirmedBlocks :: "container \<Rightarrow> uint64 \<Rightarrow> uint64 list option" where
  "GetConfirmedBlocks c confirmations =
     (case takeWhile (confirmed c confirmations) (map Number (cache c)) of
        [] \<Rightarrow> None
      | n # ns \<Rightarrow> Some (n # ns))"

text \<open>
  Modelled from the spec: the range \<open>[from, to]\<close> of block numbers that the missing
  \<open>RemoveBlocks\<close> is given, both ends included.
\<close>

definition blockRange :: "uint64 \<Rightarrow> uint64 \<Rightarrow> uint64 list" where
  "blockRange from to = map of_nat [unat from ..< Suc (unat to)]"

text \<open>
  Modelled from the spec: \<open>RemoveBlocks\<close> is missing. The spec's \<open>evict\<close> removes
  \<open>[from, to]\<close> from the cache and sets \<open>lastProcessed = to\<close>; it returns an error
  and does not mutate if the range is not a prefix of the current cache.
\<close>

definition RemoveBlocks :: "container \<Rightarrow> uint64 \<Rightarrow> uint64 \<Rightarrow> error + container" where
  "RemoveBlocks c from to =
     (if prefix (blockRange from to) (map Number (cache c))
      then Inr (c\<lparr>cache := drop (length (blockRange from to)) (cache c), lastProcessed := to\<rparr>)
      else Inl (Err ''range is not a prefix of the cached blocks''))"

text \<open>
  Modelled from the spec: \<open>CleanState\<close> is missing. The spec's \<open>reset\<close> clears the
  cache entirely and sets \<open>lastCached = lastProcessed = baseline\<close>; the resync procedure
  resets to the watermark it has just read.
\<close>

definition CleanState :: "container \<Rightarrow> container" where
  "CleanState c = c\<lparr>cache := [], lastCached := lastProcessed c\<rparr>"

section \<open>The event tracker\<close>

text \<open>
  \<open>PolybftEventTracker\<close>: the block container, and the calls made so far (kept to state
  what the tracker did and in which order; the Go struct has no such field). The lock of
  the container, the close channel and the run-once guard belong to the concurrent
  wiring, which is not modelled: every function below is one sequential run.
\<close>

record tracker =
  blockContainer :: container
  calls :: "call list"

definition called :: "call \<Rightarrow> tracker \<Rightarrow> tracker" where
  "called e t = t\<lparr>calls := calls t @ [e]\<rparr>"

text \<open>
  \<open>NewPolybftEventTracker\<close>: reads the watermark from the store, fails if the store does.
\<close>

definition definiteLastProcessedBlock :: "uint64 \<Rightarrow> uint64 \<Rightarrow> uint64" where
  "definiteLastProcessedBlock startBlockFromConfig lastProcessedBlock =
     (let d0 = (if startBlockFromConfig > 0 then startBlockFromConfig - 1 else 0)
      in if lastProcessedBlock > d0 then lastProcessedBlock else d0)"

definition NewPolybftEventTracker :: "config \<Rightarrow> error + tracker" where
  "NewPolybftEventTracker cfg =
     (case GetLastProcessedBlock cfg of
        Inl err \<Rightarrow> Inl err
      | Inr lastProcessedBlock \<Rightarrow>
          Inr \<lparr>blockContainer = NewTrackerBlockContainer
                 (definiteLastProcessedBlock (StartBlockFromConfig cfg) lastProcessedBlock),
               calls = []\<rparr>)"

text \<open>\<open>getLogsQuery\<close>: the addresses are the keys of the filter table.\<close>

definition getLogsQuery :: "config \<Rightarrow> uint64 \<Rightarrow> uint64 \<Rightarrow> logquery" where
  "getLogsQuery cfg from to = \<lparr>qAddress = dom (LogFilter cfg), qFrom = from, qTo = to\<rparr>"

text \<open>
  The inner loop of the filter in \<open>processLogs\<close>: \<open>for _, id := range logIDs\<close>. Each
  iteration evaluates \<open>log.Topics[0]\<close>, which panics when the log has no topic. The
  result says whether the loop left through \<open>break\<close>.
\<close>

fun matchIDs :: "log \<Rightarrow> hash list \<Rightarrow> error + bool" where
  "matchIDs lg [] = Inr False"
| "matchIDs lg (logID # logIDs) =
     (case Topics lg of
        [] \<Rightarrow> Inl PanicIndexOutOfRange
      | topic0 # _ \<Rightarrow> if topic0 = logID then Inr True else matchIDs lg logIDs)"

text \<open>
  The outer loop, \<open>for _, log := range logs\<close>, with \<open>filteredLogs\<close> as accumulator.
  A matching log is appended and handed to the subscriber.
\<close>

fun filterLogs :: "config \<Rightarrow> log list \<Rightarrow> log list \<Rightarrow> tracker \<Rightarrow> (error + log list) \<times> tracker" where
  "filterLogs cfg [] filteredLogs t = (Inr filteredLogs, t)"
| "filterLogs cfg (lg # logs) filteredLogs t =
     (case LogFilter cfg (Address lg) of
        None \<Rightarrow> filterLogs cfg logs filteredLogs t
      | Some logIDs \<Rightarrow>
          (case matchIDs lg logIDs of
             Inl e \<Rightarrow> (Inl e, t)
           | Inr True \<Rightarrow> filterLogs cfg logs (filteredLogs @ [lg]) (called (AddLog_call lg) t)
           | Inr False \<Rightarrow> filterLogs cfg logs filteredLogs t))"

text \<open>
  \<open>processLogs\<close>. \<open>confirmedBlocks[0]\<close> on a slice that is not nil but empty would
  panic; the result is the returned error and the tracker after the run.
\<close>

definition processLogs :: "config \<Rightarrow> tracker \<Rightarrow> error option \<times> tracker" where
  "processLogs cfg t =
     (case GetConfirmedBlocks (blockContainer t) (NumBlockConfirmations cfg) of
        None \<Rightarrow> (None, t)
      | Some [] \<Rightarrow> (Some PanicIndexOutOfRange, t)
      | Some (fromBlock # rest) \<Rightarrow>
          (let toBlock = last (fromBlock # rest);
               q = getLogsQuery cfg fromBlock toBlock;
               t1 = called (GetLogs_call q) t
           in case GetLogs cfg q of
                Inl err \<Rightarrow> (Some err, t1)
              | Inr logs \<Rightarrow>
                  (case filterLogs cfg logs [] t1 of
                     (Inl e, t2) \<Rightarrow> (Some e, t2)
                   | (Inr filteredLogs, t2) \<Rightarrow>
                       (let t3 = called (InsertLastProcessedBlock_call toBlock) t2
                        in case InsertLastProcessedBlock cfg toBlock of
                             Some err \<Rightarrow> (Some err, t3)
                           | None \<Rightarrow>
                               (let t4 = called (InsertLogs_call filteredLogs) t3
                                in case InsertLogs cfg filteredLogs of
                                     Some err \<Rightarrow> (Some err, t4)
                                   | None \<Rightarrow>
                                       (let t5 = called (RemoveBlocks_call fromBlock toBlock) t4
                                        in case RemoveBlocks (blockContainer t5) fromBlock toBlock of
                                             Inl err \<Rightarrow>
                                               (Some (Wrap ''could not remove processed blocks. Err: '' err), t5)
                                           | Inr c \<Rightarrow> (None, t5\<lparr>blockContainer := c\<rparr>)))))))"

text \<open>
  The start of the resync in \<open>getNewState\<close>: one past the watermark, or, when the
  watermark is further behind the latest block than the backlog allows, the latest block
  number minus the backlog.
\<close>

definition startBlock :: "config \<Rightarrow> uint64 \<Rightarrow> block \<Rightarrow> uint64" where
  "startBlock cfg lastProcessedBlock latestBlock =
     (if Number latestBlock > MaxBacklogSize cfg \<and>
         Number latestBlock - MaxBacklogSize cfg > lastProcessedBlock
      then Number latestBlock - MaxBacklogSize cfg
      else lastProcessedBlock + 1)"

text \<open>
  \<open>p.blockContainer.AddBlock(block)\<close>, recorded as a call.
\<close>

definition addBlock :: "block \<Rightarrow> tracker \<Rightarrow> tracker" where
  "addBlock blk t =
     (called (AddBlock_call blk) t)\<lparr>blockContainer := AddBlock (blockContainer t) blk\<rparr>"

text \<open>
  The inner loop of \<open>getNewState\<close>: \<open>for j := i; j < end; j++\<close>. It fetches block
  \<open>j\<close> from the provider and adds it to the container; a provider error ends the
  resync. Since \<open>j < end\<close>, the increment does not wrap and the loop terminates.
\<close>

function fetchBatch :: "config \<Rightarrow> uint64 \<Rightarrow> uint64 \<Rightarrow> tracker \<Rightarrow> error option \<times> tracker" where
  "fetchBatch cfg j endBlock t =
     (if j < endBlock then
        (let t1 = called (GetBlockByNumber_call j) t
         in case GetBlockByNumber cfg j of
              Inl err \<Rightarrow> (Some err, t1)
            | Inr blk \<Rightarrow> fetchBatch cfg (j + 1) endBlock (addBlock blk t1))
      else (None, t))"
  by pat_completeness auto
termination
proof (relation "measure (\<lambda>(cfg, j, endBlock, t). unat endBlock - unat j)")
  show "wf (measure (\<lambda>(cfg, j, endBlock, t). unat endBlock - unat j))"
    by simp
next
  fix cfg :: config and j endBlock :: uint64 and t t1 :: tracker and blk :: block
  assume "j < endBlock"
  then have lt: "unat j < unat endBlock"
    by (simp add: word_less_nat_alt)
  have "unat endBlock < 2 ^ 64"
    using unsigned_less [of endBlock] by simp
  with lt have "unat (j + 1) = Suc (unat j)"
    by (simp add: unat_word_ariths)
  with lt show "((cfg, j + 1, endBlock, addBlock blk t1), (cfg, j, endBlock, t))
      \<in> measure (\<lambda>(cfg, j, endBlock, t). unat endBlock - unat j)"
    by simp
qed

declare fetchBatch.simps [simp del]

text \<open>
  The outer loop: \<open>for i := startBlock; i <= latestBlock.Number; i += SyncBatchSize\<close>.
  With a batch size of 0 (or an addition that wraps around) nothing makes it stop, so its
  result is an option: \<open>None\<close> is a run that never returns.
\<close>

partial_function (option) syncLoop ::
  "config \<Rightarrow> block \<Rightarrow> uint64 \<Rightarrow> tracker \<Rightarrow> (error option \<times> tracker) option" where
  "syncLoop cfg latestBlock i t =
     (if i \<le> Number latestBlock then
        (let endBlock = (if i + SyncBatchSize cfg > Number latestBlock
                         then Number latestBlock - 1 else i + SyncBatchSize cfg)
         in case fetchBatch cfg i endBlock t of
              (Some err, t1) \<Rightarrow> Some (Some err, t1)
            | (None, t1) \<Rightarrow>
                (case processLogs cfg t1 of
                   (Some err, t2) \<Rightarrow> Some (Some err, t2)
                 | (None, t2) \<Rightarrow> syncLoop cfg latestBlock (i + SyncBatchSize cfg) t2))
      else Some (None, t))"

declare syncLoop.simps [code]

text \<open>
  \<open>getNewState\<close>: reads the watermark, cleans the container, fetches the missed blocks
  in batches, adds the latest block and processes the logs once more.
\<close>

definition getNewState :: "config \<Rightarrow> tracker \<Rightarrow> block \<Rightarrow> (error option \<times> tracker) option" where
  "getNewState cfg t latestBlock =
     (let lastProcessedBlock = LastProcessedBlock (blockContainer t);
          t0 = (called CleanState_call t)\<lparr>blockContainer := CleanState (blockContainer t)\<rparr>
      in case syncLoop cfg latestBlock (startBlock cfg lastProcessedBlock latestBlock) t0 of
           None \<Rightarrow> None
         | Some (Some err, t1) \<Rightarrow> Some (Some err, t1)
         | Some (None, t1) \<Rightarrow> Some (processLogs cfg (addBlock latestBlock t1)))"


section \<open>Reading the record of calls\<close>

text \<open>
  What the filter of \<open>processLogs\<close> is meant to keep: a log whose address is a key of
  the filter table and whose first topic is one of the hashes listed for that address.
\<close>

definition accepted :: "config \<Rightarrow> log \<Rightarrow> bool" where
  "accepted cfg lg =
     (case LogFilter cfg (Address lg) of
        None \<Rightarrow> False
      | Some logIDs \<Rightarrow> (case Topics lg of [] \<Rightarrow> False | topic0 # _ \<Rightarrow> topic0 \<in> set logIDs))"

text \<open>
  The logs on which the index expression \<open>log.Topics[0]\<close> is evaluated with no topic
  present: the address is a key of the table, the list for it is not empty (so the inner
  loop runs at least once), and the log has no topic.
\<close>

definition indexPanics :: "config \<Rightarrow> log \<Rightarrow> bool" where
  "indexPanics cfg lg =
     (case LogFilter cfg (Address lg) of
        None \<Rightarrow> False
      | Some logIDs \<Rightarrow> logIDs \<noteq> [] \<and> Topics lg = [])"

text \<open>The calls made between two states of the tracker.\<close>

definition newCalls :: "tracker \<Rightarrow> tracker \<Rightarrow> call list" where
  "newCalls t t' = drop (length (calls t)) (calls t')"


text \<open>The store writes and the eviction.\<close>

fun isWrite :: "call \<Rightarrow> bool" where
  "isWrite (InsertLastProcessedBlock_call n) = True"
| "isWrite (InsertLogs_call ls) = True"
| "isWrite (RemoveBlocks_call from to) = True"
| "isWrite c = False"

text \<open>The block numbers requested from the provider, in order.\<close>

fun fetched :: "call list \<Rightarrow> uint64 list" where
  "fetched [] = []"
| "fetched (GetBlockByNumber_call n # cs) = n # fetched cs"
| "fetched (c # cs) = fetched cs"


text \<open>The logs of a query that pass the filter (none if the provider fails).\<close>

definition filteredOf :: "config \<Rightarrow> logquery \<Rightarrow> log list" where
  "filteredOf cfg q = (case GetLogs cfg q of Inl err \<Rightarrow> [] | Inr logs \<Rightarrow> filter (accepted cfg) logs)"

section \<open>The pool of signed messages\<close>

text \<open>
  \<open>rootchain.SAM\<close>: the hash of the subject, the signature bytes, and the embedded
  event, which the pool never looks at.
\<close>

record 'e SAM =
  samHash :: hash
  Signature :: "8 word list"
  Event :: 'e

text \<open>
  \<open>samSet\<close>. The key of \<open>signatures\<close> is the Go string made of the signature
  bytes; reading a \<open>map[string]bool\<close> at an absent key gives \<open>false\<close>.
\<close>

record 'e samSet =
  messages :: "'e SAM list"
  signatures :: "8 word list \<rightharpoonup> bool"

definition newSet :: "'e samSet" where
  "newSet = \<lparr>messages = [], signatures = Map.empty\<rparr>"

definition hasSignature :: "'e samSet \<Rightarrow> 8 word list \<Rightarrow> bool" where
  "hasSignature s strSignature = (case signatures s strSignature of None \<Rightarrow> False | Some b \<Rightarrow> b)"

definition samSet_add :: "'e samSet \<Rightarrow> 'e SAM \<Rightarrow> 'e samSet" where
  "samSet_add s msg =
     (let strSignature = Signature msg
      in if hasSignature s strSignature then s
         else s\<lparr>messages := messages s @ [msg],
                signatures := (signatures s)(strSignature \<mapsto> True)\<rparr>)"

definition samSet_get :: "'e samSet \<Rightarrow> 'e SAM list" where
  "samSet_get s = messages s"

type_synonym 'e samBucket = "hash \<rightharpoonup> 'e samSet"

definition newBucket :: "'e samBucket" where
  "newBucket = Map.empty"

definition samBucket_add :: "'e samBucket \<Rightarrow> 'e SAM \<Rightarrow> 'e samBucket" where
  "samBucket_add b msg =
     (let s = (case b (samHash msg) of None \<Rightarrow> newSet | Some s0 \<Rightarrow> s0)
      in b(samHash msg \<mapsto> samSet_add s msg))"

text \<open>
  \<open>getQuorumMessages\<close>. Go visits the entries of a map in an order that is not fixed;
  \<open>order\<close> is the order in which this call visits the keys. The slice of a set is made
  by \<open>make\<close> in \<open>newSet\<close> and only grown by \<open>append\<close>, so it is never \<open>nil\<close>: the
  result \<open>nil\<close> is \<open>None\<close>, a returned slice is \<open>Some\<close>. The count is
  \<open>uint64(len(messages))\<close>.
\<close>

fun scanQuorum :: "(uint64 \<Rightarrow> bool) \<Rightarrow> 'e samSet list \<Rightarrow> 'e SAM list option" where
  "scanQuorum quorum [] = None"
| "scanQuorum quorum (s # sets) =
     (let msgs = samSet_get s
      in if quorum (of_nat (length msgs)) then Some msgs else scanQuorum quorum sets)"

definition getQuorumMessages ::
  "'e samBucket \<Rightarrow> (uint64 \<Rightarrow> bool) \<Rightarrow> hash list \<Rightarrow> 'e SAM list option" where
  "getQuorumMessages b quorum order = scanQuorum quorum (List.map_filter b order)"

text \<open>The pool after a sequence of \<open>add\<close> calls on a new bucket.\<close>

definition addAll :: "'e SAM list \<Rightarrow> 'e samBucket" where
  "addAll msgs = foldl samBucket_add newBucket msgs"

text \<open>The number of messages the bucket holds for a subject.\<close>

definition countOf :: "'e samBucket \<Rightarrow> hash \<Rightarrow> nat" where
  "countOf b h = (case b h of None \<Rightarrow> 0 | Some s \<Rightarrow> length (samSet_get s))"

text \<open>The messages the bucket holds for a subject (none for an unknown subject).\<close>

definition msgsOf :: "'e samBucket \<Rightarrow> hash \<Rightarrow> 'e SAM list" where
  "msgsOf b h = (case b h of None \<Rightarrow> [] | Some s \<Rightarrow> samSet_get s)"

text \<open>
  In a bucket built by \<open>add\<close>, the \<open>signatures\<close> map of every set says exactly which
  signatures the messages of the set carry.
\<close>

definition sigsKnown :: "'e samBucket \<Rightarrow> bool" where
  "sigsKnown b = (\<forall>h s. b h = Some s \<longrightarrow>
      (\<forall>sg. hasSignature s sg = (sg \<in> Signature ` set (messages s))))"

section \<open>Concrete inputs\<close>

text \<open>
  A provider that has every block (block \<open>n\<close> has number \<open>n\<close>) and no logs, a store
  that holds the watermark 42 and accepts every write, and an empty filter table.
\<close>

definition chainBlock :: "uint64 \<Rightarrow> block" where
  "chainBlock n = \<lparr>Number = n, Hash = ucast n, ParentHash = ucast (n - 1)\<rparr>"

definition exampleConfig :: config where
  "exampleConfig =
     \<lparr>StartBlockFromConfig = 100, NumBlockConfirmations = 3, SyncBatchSize = 5,
      MaxBacklogSize = 10000, LogFilter = Map.empty,
      GetBlockByNumber = (\<lambda>n. Inr (chainBlock n)),
      GetLogs = (\<lambda>q. Inr []),
      GetLastProcessedBlock = Inr 42,
      InsertLastProcessedBlock = (\<lambda>n. None),
      InsertLogs = (\<lambda>ls. None)\<rparr>"

text \<open>
  The window of the spec's end-to-end scenario: watermark 100, blocks 101 to 108 cached.
  With 5 confirmations the confirmed range is 101 to 103.
\<close>

definition exampleTracker :: tracker where
  "exampleTracker =
     \<lparr>blockContainer =
        \<lparr>lastProcessed = 100,
         cache = map chainBlock [101, 102, 103, 104, 105, 106, 107, 108],
         lastCached = 108\<rparr>,
      calls = []\<rparr>"

text \<open>
  A resync from an empty window at watermark 0 towards block 10, in batches of 5, with so
  many confirmations asked that no block is confirmed.
\<close>

definition gapConfig :: config where
  "gapConfig = exampleConfig\<lparr>NumBlockConfirmations := 100\<rparr>"

definition gapTracker :: tracker where
  "gapTracker = \<lparr>blockContainer = NewTrackerBlockContainer 0, calls = []\<rparr>"

text \<open>
  The backlog example of the spec: watermark 5, latest block 10050, a backlog of at most
  10000 blocks. The provider has the blocks below 53 and fails on the others.
\<close>

definition backlogConfig :: config where
  "backlogConfig = exampleConfig
     \<lparr>GetBlockByNumber := (\<lambda>n. if n < 53 then Inr (chainBlock n) else Inl (Err ''no connection''))\<rparr>"

definition backlogTracker :: tracker where
  "backlogTracker = \<lparr>blockContainer = NewTrackerBlockContainer 5, calls = []\<rparr>"




text \<open>
  Logs of the addresses 10, 11 and 12, and a filter table that lists topic 1 for address
  10 and topics 3 and 2 for address 11.
\<close>

definition exampleLog :: "address \<Rightarrow> hash list \<Rightarrow> log" where
  "exampleLog a ts = \<lparr>Address = a, Topics = ts, Data = [], BlockNumber = 102, LogIndex = 0\<rparr>"

definition exampleLogs :: "log list" where
  "exampleLogs = [exampleLog 10 [1], exampleLog 12 [1], exampleLog 10 [2],
                  exampleLog 11 [2, 7], exampleLog 12 []]"

definition filterConfig :: config where
  "filterConfig = exampleConfig
     \<lparr>NumBlockConfirmations := 5,
      LogFilter := [10 \<mapsto> [1], 11 \<mapsto> [3, 2]],
      GetLogs := (\<lambda>q. Inr exampleLogs)\<rparr>"



text \<open>
  A provider that returns a single log without topics from address 10, which the table
  lists with the given hashes.
\<close>

definition zeroTopicConfig :: "hash list \<Rightarrow> config" where
  "zeroTopicConfig logIDs = filterConfig
     \<lparr>LogFilter := [10 \<mapsto> logIDs],
      GetLogs := (\<lambda>q. Inr [exampleLog 10 []])\<rparr>"

text \<open>Signed messages: three distinct signatures for subject 1, one of them sent twice.\<close>

definition exampleSAM :: "hash \<Rightarrow> 8 word list \<Rightarrow> nat \<Rightarrow> nat SAM" where
  "exampleSAM h sg e = \<lparr>samHash = h, Signature = sg, Event = e\<rparr>"

definition exampleMsgs :: "nat SAM list" where
  "exampleMsgs = [exampleSAM 1 [10] 0, exampleSAM 1 [11] 0, exampleSAM 2 [10] 0,
                  exampleSAM 1 [10] 1, exampleSAM 1 [12] 0]"

section \<open>Start of the resync\<close>

lemma startBlock_clamp:
  "startBlock cfg lastProcessedBlock latestBlock =
     (if uint (Number latestBlock) - uint (MaxBacklogSize cfg) > uint lastProcessedBlock
      then Number latestBlock - MaxBacklogSize cfg
      else lastProcessedBlock + 1)
   \<and> startBlock (cfg\<lparr>MaxBacklogSize := 10000\<rparr>) 5 (latestBlock\<lparr>Number := 10050\<rparr>) = 50"
proof -
  let ?n = "Number latestBlock" and ?m = "MaxBacklogSize cfg"
  have sub: "uint (?n - ?m) = uint ?n - uint ?m" if "?m < ?n"
    using that by (simp add: uint_sub_if' word_less_def word_le_def)
  have pos: "?m < ?n" if "uint lastProcessedBlock < uint ?n - uint ?m"
    using that uint_ge_0 [of lastProcessedBlock] unfolding word_less_def by linarith
  have "(?m < ?n \<and> lastProcessedBlock < ?n - ?m)
        = (uint lastProcessedBlock < uint ?n - uint ?m)"
    using sub pos by (auto simp: word_less_def)
  then show ?thesis
    by (simp add: startBlock_def)
qed

section \<open>Construction\<close>

lemma definiteLastProcessedBlock_eq:
  "definiteLastProcessedBlock s w = (if 0 < s \<and> w < s - 1 then s - 1 else w)"
  by (auto simp: definiteLastProcessedBlock_def Let_def word_greater_zero_iff)

lemma definiteLastProcessedBlock_max:
  "uint (definiteLastProcessedBlock s w) = max (uint s - 1) (uint w)"
proof (cases "0 < s")
  case True
  then have "uint (s - 1) = uint s - 1"
    by (simp add: uint_sub_if' word_less_def word_le_def)
  with True show ?thesis
    by (auto simp: definiteLastProcessedBlock_eq word_less_def max_def)
next
  case False
  then have "s = 0" by (simp add: word_greater_zero_iff)
  moreover have "0 \<le> uint w" by simp
  then have "max (- 1) (uint w) = uint w" by linarith
  ultimately show ?thesis
    by (simp add: definiteLastProcessedBlock_eq)
qed

text \<open>
  C6. When the store returns the watermark \<open>w\<close>, the constructor succeeds and the
  tracker's initial \<open>lastProcessed\<close> is \<open>max (configuredStart - 1) w\<close> (over the
  integers): it is \<open>w\<close> unless the configured start is positive and
  \<open>configuredStart - 1\<close> exceeds \<open>w\<close>, in which case it is \<open>configuredStart - 1\<close>.
\<close>

theorem NewPolybftEventTracker_lastProcessed:
  assumes "GetLastProcessedBlock cfg = Inr w"
  shows "\<exists>t. NewPolybftEventTracker cfg = Inr t
           \<and> uint (lastProcessed (blockContainer t)) = max (uint (StartBlockFromConfig cfg) - 1) (uint w)
           \<and> lastProcessed (blockContainer t) =
               (if 0 < StartBlockFromConfig cfg \<and> w < StartBlockFromConfig cfg - 1
                then StartBlockFromConfig cfg - 1 else w)"
  using assms definiteLastProcessedBlock_max [of "StartBlockFromConfig cfg" w]
    definiteLastProcessedBlock_eq [of "StartBlockFromConfig cfg" w]
  by (simp add: NewPolybftEventTracker_def NewTrackerBlockContainer_def)

theorem NewPolybftEventTracker_lastProcessed_witness:
  "GetLastProcessedBlock exampleConfig = Inr 42 \<and>
   (\<exists>t. NewPolybftEventTracker exampleConfig = Inr t \<and> lastProcessed (blockContainer t) = 99)"
  using NewPolybftEventTracker_lastProcessed [of exampleConfig 42]
  by (auto simp: exampleConfig_def)

section \<open>The log pipeline\<close>

lemma matchIDs_eq:
  "matchIDs lg logIDs =
     (case Topics lg of
        [] \<Rightarrow> if logIDs = [] then Inr False else Inl PanicIndexOutOfRange
      | topic0 # _ \<Rightarrow> Inr (topic0 \<in> set logIDs))"
  by (induction logIDs) (auto split: list.splits)

lemma filterLogs_step:
  "filterLogs cfg (lg # logs) acc t =
     (if indexPanics cfg lg then (Inl PanicIndexOutOfRange, t)
      else if accepted cfg lg then filterLogs cfg logs (acc @ [lg]) (called (AddLog_call lg) t)
      else filterLogs cfg logs acc t)"
  by (auto simp: indexPanics_def accepted_def matchIDs_eq split: option.splits list.splits)

lemma filterLogs_run:
  "filterLogs cfg logs acc t =
     (let seen = takeWhile (\<lambda>lg. \<not> indexPanics cfg lg) logs;
          t' = t\<lparr>calls := calls t @ map AddLog_call (filter (accepted cfg) seen)\<rparr>
      in if \<exists>lg \<in> set logs. indexPanics cfg lg then (Inl PanicIndexOutOfRange, t')
         else (Inr (acc @ filter (accepted cfg) logs), t'))"
proof (induction logs arbitrary: acc t)
  case Nil
  then show ?case by simp
next
  case (Cons lg logs)
  show ?case
    by (simp only: filterLogs_step Cons.IH) (simp add: Let_def called_def)
qed

lemma processLogs_fetch_error:
  assumes "GetConfirmedBlocks (blockContainer t) (NumBlockConfirmations cfg) = Some (fromBlock # rest)"
    and "GetLogs cfg (getLogsQuery cfg fromBlock (last (fromBlock # rest))) = Inl err"
  shows "processLogs cfg t =
     (Some err, called (GetLogs_call (getLogsQuery cfg fromBlock (last (fromBlock # rest)))) t)"
  using assms by (simp add: processLogs_def Let_def del: last.simps)

lemma processLogs_panic:
  assumes "GetConfirmedBlocks (blockContainer t) (NumBlockConfirmations cfg) = Some (fromBlock # rest)"
    and "GetLogs cfg (getLogsQuery cfg fromBlock (last (fromBlock # rest))) = Inr logs"
    and "\<exists>lg \<in> set logs. indexPanics cfg lg"
  shows "processLogs cfg t =
     (Some PanicIndexOutOfRange,
      t\<lparr>calls := calls t @ GetLogs_call (getLogsQuery cfg fromBlock (last (fromBlock # rest)))
           # map AddLog_call (filter (accepted cfg) (takeWhile (\<lambda>lg. \<not> indexPanics cfg lg) logs))\<rparr>)"
  using assms by (simp add: processLogs_def filterLogs_run Let_def called_def del: last.simps)

lemma processLogs_writes:
  assumes "GetConfirmedBlocks (blockContainer t) (NumBlockConfirmations cfg) = Some (fromBlock # rest)"
    and "GetLogs cfg (getLogsQuery cfg fromBlock (last (fromBlock # rest))) = Inr logs"
    and "\<forall>lg \<in> set logs. \<not> indexPanics cfg lg"
  shows "processLogs cfg t =
     (let toBlock = last (fromBlock # rest);
          fl = filter (accepted cfg) logs;
          base = calls t @ GetLogs_call (getLogsQuery cfg fromBlock toBlock) # map AddLog_call fl
      in case InsertLastProcessedBlock cfg toBlock of
           Some err \<Rightarrow> (Some err, t\<lparr>calls := base @ [InsertLastProcessedBlock_call toBlock]\<rparr>)
         | None \<Rightarrow>
             (case InsertLogs cfg fl of
                Some err \<Rightarrow>
                  (Some err, t\<lparr>calls := base @ [InsertLastProcessedBlock_call toBlock, InsertLogs_call fl]\<rparr>)
              | None \<Rightarrow>
                  (case RemoveBlocks (blockContainer t) fromBlock toBlock of
                     Inl err \<Rightarrow>
                       (Some (Wrap ''could not remove processed blocks. Err: '' err),
                        t\<lparr>calls := base @ [InsertLastProcessedBlock_call toBlock, InsertLogs_call fl,
                                             RemoveBlocks_call fromBlock toBlock]\<rparr>)
                   | Inr c \<Rightarrow>
                       (None,
                        \<lparr>blockContainer = c,
                         calls = base @ [InsertLastProcessedBlock_call toBlock, InsertLogs_call fl,
                                         RemoveBlocks_call fromBlock toBlock]\<rparr>))))"
proof -
  have seen: "takeWhile (\<lambda>lg. \<not> indexPanics cfg lg) logs = logs"
    using assms(3) by (simp add: takeWhile_eq_all_conv)
  show ?thesis
    using assms
    by (simp add: processLogs_def filterLogs_run seen Let_def called_def
        del: last.simps split: option.splits sum.splits)
qed

lemma filter_isWrite_AddLog: "filter isWrite (map AddLog_call ls) = []"
  by (induction ls) simp_all



text \<open>
  C7. If the confirmed range is not empty and the provider fails to return its logs,
  \<open>processLogs\<close> returns the provider's error after that one call: the block container
  is unchanged, nothing was written to the store and nothing was evicted, so the same
  range is confirmed again on the next pass.
\<close>

theorem processLogs_provider_error:
  assumes "GetConfirmedBlocks (blockContainer t) (NumBlockConfirmations cfg) = Some (fromBlock # rest)"
    and "GetLogs cfg (getLogsQuery cfg fromBlock (last (fromBlock # rest))) = Inl err"
  shows "processLogs cfg t =
           (Some err, t\<lparr>calls := calls t @ [GetLogs_call (getLogsQuery cfg fromBlock (last (fromBlock # rest)))]\<rparr>)
       \<and> blockContainer (snd (processLogs cfg t)) = blockContainer t
       \<and> filter isWrite (newCalls t (snd (processLogs cfg t))) = []
       \<and> GetConfirmedBlocks (blockContainer (snd (processLogs cfg t))) (NumBlockConfirmations cfg)
           = Some (fromBlock # rest)"
  using assms
  by (simp add: processLogs_fetch_error called_def newCalls_def del: last.simps)

theorem processLogs_provider_error_witness:
  "GetConfirmedBlocks (blockContainer exampleTracker)
       (NumBlockConfirmations (filterConfig\<lparr>GetLogs := (\<lambda>q. Inl (Err ''no connection''))\<rparr>))
     = Some [101, 102, 103]
   \<and> processLogs (filterConfig\<lparr>GetLogs := (\<lambda>q. Inl (Err ''no connection''))\<rparr>) exampleTracker
     = (Some (Err ''no connection''),
        exampleTracker\<lparr>calls := [GetLogs_call \<lparr>qAddress = {10, 11}, qFrom = 101, qTo = 103\<rparr>]\<rparr>)"
  using processLogs_provider_error [of exampleTracker
      "filterConfig\<lparr>GetLogs := (\<lambda>q. Inl (Err ''no connection''))\<rparr>" 101 "[102, 103]"
      "Err ''no connection''"]
  by (auto simp: exampleTracker_def filterConfig_def exampleConfig_def chainBlock_def
      GetConfirmedBlocks_def confirmed_def getLogsQuery_def)




text \<open>
  C2. In a pass with a confirmed range from \<open>fromBlock\<close> to \<open>toBlock\<close>, the writes
  and the eviction are an initial part of the sequence watermark write, log write,
  eviction. The log write happens only after the watermark write succeeded, the eviction
  only after both writes succeeded; if either write fails, there is no eviction, the
  block container is unchanged and an error is returned.
\<close>

theorem processLogs_write_order:
  assumes conf: "GetConfirmedBlocks (blockContainer t) (NumBlockConfirmations cfg) = Some (fromBlock # rest)"
    and to: "toBlock = last (fromBlock # rest)"
    and fl: "fl = filteredOf cfg (getLogsQuery cfg fromBlock toBlock)"
    and new: "new = newCalls t (snd (processLogs cfg t))"
  shows "prefix (filter isWrite new)
           [InsertLastProcessedBlock_call toBlock, InsertLogs_call fl, RemoveBlocks_call fromBlock toBlock]
       \<and> (InsertLogs_call fl \<in> set new \<longrightarrow> InsertLastProcessedBlock cfg toBlock = None)
       \<and> (RemoveBlocks_call fromBlock toBlock \<in> set new \<longrightarrow>
             InsertLastProcessedBlock cfg toBlock = None \<and> InsertLogs cfg fl = None)
       \<and> (InsertLastProcessedBlock cfg toBlock \<noteq> None \<or> InsertLogs cfg fl \<noteq> None \<longrightarrow>
             RemoveBlocks_call fromBlock toBlock \<notin> set new
             \<and> blockContainer (snd (processLogs cfg t)) = blockContainer t
             \<and> fst (processLogs cfg t) \<noteq> None)
       \<and> (blockContainer (snd (processLogs cfg t)) \<noteq> blockContainer t \<longrightarrow>
             RemoveBlocks_call fromBlock toBlock \<in> set new)"
proof (cases "GetLogs cfg (getLogsQuery cfg fromBlock toBlock)")
  case (Inl err)
  then have "processLogs cfg t = (Some err, called (GetLogs_call (getLogsQuery cfg fromBlock toBlock)) t)"
    using conf to by (simp only: processLogs_fetch_error)
  then show ?thesis
    by (simp add: new newCalls_def called_def)
next
  case (Inr logs)
  then have flv: "fl = filter (accepted cfg) logs"
    by (simp add: fl filteredOf_def)
  show ?thesis
  proof (cases "\<exists>lg \<in> set logs. indexPanics cfg lg")
    case True
    have "processLogs cfg t =
        (Some PanicIndexOutOfRange,
         t\<lparr>calls := calls t @ GetLogs_call (getLogsQuery cfg fromBlock toBlock)
           # map AddLog_call (filter (accepted cfg) (takeWhile (\<lambda>lg. \<not> indexPanics cfg lg) logs))\<rparr>)"
      using conf Inr True unfolding to by (rule processLogs_panic)
    then show ?thesis
      by (auto simp: new newCalls_def filter_isWrite_AddLog)
  next
    case False
    then have np: "\<forall>lg \<in> set logs. \<not> indexPanics cfg lg"
      by blast
    have run: "processLogs cfg t =
     (let base = calls t @ GetLogs_call (getLogsQuery cfg fromBlock toBlock) # map AddLog_call fl
      in case InsertLastProcessedBlock cfg toBlock of
           Some err \<Rightarrow> (Some err, t\<lparr>calls := base @ [InsertLastProcessedBlock_call toBlock]\<rparr>)
         | None \<Rightarrow>
             (case InsertLogs cfg fl of
                Some err \<Rightarrow>
                  (Some err, t\<lparr>calls := base @ [InsertLastProcessedBlock_call toBlock, InsertLogs_call fl]\<rparr>)
              | None \<Rightarrow>
                  (case RemoveBlocks (blockContainer t) fromBlock toBlock of
                     Inl err \<Rightarrow>
                       (Some (Wrap ''could not remove processed blocks. Err: '' err),
                        t\<lparr>calls := base @ [InsertLastProcessedBlock_call toBlock, InsertLogs_call fl,
                                             RemoveBlocks_call fromBlock toBlock]\<rparr>)
                   | Inr c \<Rightarrow>
                       (None,
                        \<lparr>blockContainer = c,
                         calls = base @ [InsertLastProcessedBlock_call toBlock, InsertLogs_call fl,
                                         RemoveBlocks_call fromBlock toBlock]\<rparr>))))"
      using processLogs_writes [OF conf Inr [unfolded to] np]
      by (simp only: Let_def flv to)
    show ?thesis
      unfolding new run Let_def
      by (auto simp: newCalls_def filter_isWrite_AddLog split: option.splits sum.splits)
  qed
qed

theorem processLogs_write_order_witness:
  "GetConfirmedBlocks (blockContainer exampleTracker) (NumBlockConfirmations filterConfig)
     = Some [101, 102, 103]
   \<and> filter isWrite (newCalls exampleTracker (snd (processLogs filterConfig exampleTracker)))
     = [InsertLastProcessedBlock_call 103,
        InsertLogs_call [exampleLog 10 [1], exampleLog 11 [2, 7]],
        RemoveBlocks_call 101 103]
   \<and> InsertLastProcessedBlock filterConfig 103 = None
   \<and> InsertLogs filterConfig [exampleLog 10 [1], exampleLog 11 [2, 7]] = None
   \<and> blockContainer (snd (processLogs filterConfig exampleTracker))
     = \<lparr>lastProcessed = 103, cache = map chainBlock [104, 105, 106, 107, 108], lastCached = 108\<rparr>
   \<and> InsertLogs (filterConfig\<lparr>InsertLogs := (\<lambda>ls. Some (Err ''disk full''))\<rparr>)
        [exampleLog 10 [1], exampleLog 11 [2, 7]] \<noteq> None
   \<and> processLogs (filterConfig\<lparr>InsertLogs := (\<lambda>ls. Some (Err ''disk full''))\<rparr>) exampleTracker
     = (Some (Err ''disk full''),
        exampleTracker\<lparr>calls :=
          [GetLogs_call \<lparr>qAddress = {10, 11}, qFrom = 101, qTo = 103\<rparr>,
           AddLog_call (exampleLog 10 [1]), AddLog_call (exampleLog 11 [2, 7]),
           InsertLastProcessedBlock_call 103,
           InsertLogs_call [exampleLog 10 [1], exampleLog 11 [2, 7]]]\<rparr>)"
  using processLogs_write_order [of exampleTracker filterConfig 101 "[102, 103]" 103
      "[exampleLog 10 [1], exampleLog 11 [2, 7]]"
      "newCalls exampleTracker (snd (processLogs filterConfig exampleTracker))"]
    processLogs_write_order [of exampleTracker
      "filterConfig\<lparr>InsertLogs := (\<lambda>ls. Some (Err ''disk full''))\<rparr>" 101 "[102, 103]" 103
      "[exampleLog 10 [1], exampleLog 11 [2, 7]]"
      "newCalls exampleTracker
         (snd (processLogs (filterConfig\<lparr>InsertLogs := (\<lambda>ls. Some (Err ''disk full''))\<rparr>) exampleTracker))"]
  by (auto simp: exampleTracker_def filterConfig_def exampleConfig_def chainBlock_def
      exampleLogs_def exampleLog_def GetConfirmedBlocks_def confirmed_def getLogsQuery_def
      accepted_def processLogs_def called_def newCalls_def RemoveBlocks_def blockRange_def
      filteredOf_def Let_def)

text \<open>
  C10, as stated, fails: a log without topics whose address is a key of the filter table
  with an empty list of hashes is skipped without any index access, and the pass
  completes.
\<close>

theorem zero_topic_log_no_panic:
  "GetConfirmedBlocks (blockContainer exampleTracker) (NumBlockConfirmations (zeroTopicConfig []))
     = Some [101, 102, 103]
   \<and> GetLogs (zeroTopicConfig []) (getLogsQuery (zeroTopicConfig []) 101 103) = Inr [exampleLog 10 []]
   \<and> Address (exampleLog 10 []) \<in> dom (LogFilter (zeroTopicConfig []))
   \<and> Topics (exampleLog 10 []) = []
   \<and> processLogs (zeroTopicConfig []) exampleTracker
     = (None,
        \<lparr>blockContainer =
           \<lparr>lastProcessed = 103, cache = map chainBlock [104, 105, 106, 107, 108], lastCached = 108\<rparr>,
         calls = [GetLogs_call \<lparr>qAddress = {10}, qFrom = 101, qTo = 103\<rparr>,
                  InsertLastProcessedBlock_call 103, InsertLogs_call [],
                  RemoveBlocks_call 101 103]\<rparr>)"
  by (simp add: zeroTopicConfig_def exampleTracker_def filterConfig_def exampleConfig_def
      chainBlock_def exampleLog_def GetConfirmedBlocks_def confirmed_def getLogsQuery_def
      processLogs_def called_def RemoveBlocks_def blockRange_def Let_def)

text \<open>
  C10, amended. The filter evaluates \<open>log.Topics[0]\<close> once per hash it compares,
  without checking that the log has a topic. A pass panics with an index out of range,
  before any store write or eviction, if and only if some fetched log has no topic and
  an address that is a key of the filter table with at least one hash listed; otherwise
  the filter completes and the pass goes on to the watermark write.
\<close>

theorem processLogs_index_panic:
  assumes "GetConfirmedBlocks (blockContainer t) (NumBlockConfirmations cfg) = Some (fromBlock # rest)"
    and "GetLogs cfg (getLogsQuery cfg fromBlock (last (fromBlock # rest))) = Inr logs"
  shows "((\<exists>lg \<in> set logs. indexPanics cfg lg) \<longrightarrow>
            fst (processLogs cfg t) = Some PanicIndexOutOfRange
            \<and> blockContainer (snd (processLogs cfg t)) = blockContainer t
            \<and> filter isWrite (newCalls t (snd (processLogs cfg t))) = [])
       \<and> (\<not> (\<exists>lg \<in> set logs. indexPanics cfg lg) \<longrightarrow>
            InsertLastProcessedBlock_call (last (fromBlock # rest))
              \<in> set (newCalls t (snd (processLogs cfg t))))
       \<and> ((fst (filterLogs cfg logs [] t) = Inl PanicIndexOutOfRange)
            = (\<exists>lg \<in> set logs. indexPanics cfg lg))
       \<and> (\<forall>lg. indexPanics cfg lg =
            (\<exists>logIDs. LogFilter cfg (Address lg) = Some logIDs \<and> logIDs \<noteq> [] \<and> Topics lg = []))"
proof (intro conjI impI allI)
  assume p: "\<exists>lg \<in> set logs. indexPanics cfg lg"
  show "fst (processLogs cfg t) = Some PanicIndexOutOfRange"
    by (simp only: processLogs_panic [OF assms p] fst_conv)
  show "blockContainer (snd (processLogs cfg t)) = blockContainer t"
    by (simp only: processLogs_panic [OF assms p] snd_conv) simp
  show "filter isWrite (newCalls t (snd (processLogs cfg t))) = []"
    by (simp only: processLogs_panic [OF assms p] snd_conv)
       (simp add: newCalls_def filter_isWrite_AddLog del: last.simps)
next
  assume "\<not> (\<exists>lg \<in> set logs. indexPanics cfg lg)"
  then have np: "\<forall>lg \<in> set logs. \<not> indexPanics cfg lg"
    by blast
  show "InsertLastProcessedBlock_call (last (fromBlock # rest))
      \<in> set (newCalls t (snd (processLogs cfg t)))"
    by (simp only: processLogs_writes [OF assms np] Let_def)
       (auto simp: newCalls_def simp del: last.simps split: option.splits sum.splits)
next
  show "(fst (filterLogs cfg logs [] t) = Inl PanicIndexOutOfRange)
      = (\<exists>lg \<in> set logs. indexPanics cfg lg)"
    by (simp add: filterLogs_run Let_def)
next
  fix lg
  show "indexPanics cfg lg =
      (\<exists>logIDs. LogFilter cfg (Address lg) = Some logIDs \<and> logIDs \<noteq> [] \<and> Topics lg = [])"
    by (auto simp: indexPanics_def split: option.splits)
qed

theorem processLogs_index_panic_witness:
  "GetConfirmedBlocks (blockContainer exampleTracker) (NumBlockConfirmations (zeroTopicConfig [1]))
     = Some [101, 102, 103]
   \<and> GetLogs (zeroTopicConfig [1]) (getLogsQuery (zeroTopicConfig [1]) 101 103) = Inr [exampleLog 10 []]
   \<and> indexPanics (zeroTopicConfig [1]) (exampleLog 10 [])
   \<and> processLogs (zeroTopicConfig [1]) exampleTracker
     = (Some PanicIndexOutOfRange,
        exampleTracker\<lparr>calls := [GetLogs_call \<lparr>qAddress = {10}, qFrom = 101, qTo = 103\<rparr>]\<rparr>)
   \<and> \<not> indexPanics (zeroTopicConfig []) (exampleLog 10 [])"
  using processLogs_index_panic [of exampleTracker "zeroTopicConfig [1]" 101 "[102, 103]"
      "[exampleLog 10 []]"]
  by (auto simp: zeroTopicConfig_def exampleTracker_def filterConfig_def exampleConfig_def
      chainBlock_def exampleLog_def GetConfirmedBlocks_def confirmed_def getLogsQuery_def
      processLogs_def called_def indexPanics_def Let_def)

section \<open>Resynchronisation\<close>




lemma processLogs_calls: "prefix (calls t) (calls (snd (processLogs cfg t)))"
  by (simp add: processLogs_def filterLogs_run Let_def called_def
      del: last.simps split: option.splits list.splits sum.splits)

lemma fetchBatch_calls: "prefix (calls t) (calls (snd (fetchBatch cfg j endBlock t)))"
proof (induction cfg j endBlock t rule: fetchBatch.induct)
  case (1 cfg j endBlock t)
  show ?case
  proof (cases "j < endBlock")
    case False
    then show ?thesis by (simp add: fetchBatch.simps)
  next
    case True
    show ?thesis
    proof (cases "GetBlockByNumber cfg j")
      case (Inl err)
      with True show ?thesis
        by (subst fetchBatch.simps) (simp add: called_def)
    next
      case (Inr blk)
      have "prefix (calls t) (calls (addBlock blk (called (GetBlockByNumber_call j) t)))"
        by (simp add: addBlock_def called_def)
      also have "prefix \<dots> (calls (snd (fetchBatch cfg (j + 1) endBlock
          (addBlock blk (called (GetBlockByNumber_call j) t)))))"
        by (rule "1.IH" [OF True refl Inr])
      finally show ?thesis
        using True Inr by (subst fetchBatch.simps) simp
    qed
  qed
qed

lemma fetchBatch_first_call:
  assumes "j < endBlock"
  shows "prefix (calls t @ [GetBlockByNumber_call j]) (calls (snd (fetchBatch cfg j endBlock t)))"
proof (cases "GetBlockByNumber cfg j")
  case (Inl err)
  with assms show ?thesis
    by (subst fetchBatch.simps) (simp add: called_def)
next
  case (Inr blk)
  have "prefix (calls t @ [GetBlockByNumber_call j])
      (calls (addBlock blk (called (GetBlockByNumber_call j) t)))"
    by (simp add: addBlock_def called_def)
  also have "prefix \<dots> (calls (snd (fetchBatch cfg (j + 1) endBlock
      (addBlock blk (called (GetBlockByNumber_call j) t)))))"
    by (rule fetchBatch_calls)
  finally show ?thesis
    using assms Inr by (subst fetchBatch.simps) simp
qed

lemma syncLoop_calls:
  assumes run: "syncLoop cfg latestBlock i t = Some y"
  shows "prefix (calls t) (calls (snd y))"
proof (rule syncLoop.raw_induct [where P = "\<lambda>cfg latestBlock i t y.
         prefix (calls t) (calls (snd y))", OF _ run], goal_cases)
  case (1 syncLoop' cfg latestBlock i t y)
  let ?e = "if Number latestBlock < i + SyncBatchSize cfg
            then Number latestBlock - 1 else i + SyncBatchSize cfg"
  show ?case
  proof (cases "i \<le> Number latestBlock")
    case False
    with 1(2) show ?thesis by auto
  next
    case True
    obtain r1 t1 where f: "fetchBatch cfg i ?e t = (r1, t1)"
      by (cases "fetchBatch cfg i ?e t")
    obtain r2 t2 where p: "processLogs cfg t1 = (r2, t2)"
      by (cases "processLogs cfg t1")
    have p1: "prefix (calls t) (calls t1)"
      using fetchBatch_calls [of t cfg i ?e] f by simp
    have p2: "prefix (calls t1) (calls t2)"
      using processLogs_calls [of t1 cfg] p by simp
    show ?thesis
    proof (cases r1)
      case (Some err)
      with 1(2) True f p1 show ?thesis
        by (auto simp: Let_def)
    next
      case None
      note r1 = this
      show ?thesis
      proof (cases r2)
        case (Some err)
        with 1(2) True f p r1 have "y = (Some err, t2)"
          by (auto simp: Let_def)
        with p1 p2 show ?thesis
          by (auto intro: prefix_order.trans)
      next
        case None
        with 1(2) True f p r1
        have "syncLoop' cfg latestBlock (i + SyncBatchSize cfg) t2 = Some y"
          by (simp add: Let_def)
        then have "prefix (calls t2) (calls (snd y))"
          by (rule 1(1))
        with p1 p2 show ?thesis
          by (blast intro: prefix_order.trans)
      qed
    qed
  qed
qed

lemma syncLoop_first_call:
  assumes run: "syncLoop cfg latestBlock i t = Some y"
    and "i \<le> Number latestBlock"
    and "i < (if Number latestBlock < i + SyncBatchSize cfg
              then Number latestBlock - 1 else i + SyncBatchSize cfg)"
  shows "prefix (calls t @ [GetBlockByNumber_call i]) (calls (snd y))"
proof -
  let ?e = "if Number latestBlock < i + SyncBatchSize cfg
            then Number latestBlock - 1 else i + SyncBatchSize cfg"
  obtain r1 t1 where f: "fetchBatch cfg i ?e t = (r1, t1)"
    by (cases "fetchBatch cfg i ?e t")
  obtain r2 t2 where p: "processLogs cfg t1 = (r2, t2)"
    by (cases "processLogs cfg t1")
  have p1: "prefix (calls t @ [GetBlockByNumber_call i]) (calls t1)"
    using fetchBatch_first_call [OF assms(3), of t cfg] f by simp
  have p2: "prefix (calls t1) (calls t2)"
    using processLogs_calls [of t1 cfg] p by simp
  from run assms(2) f p
  have "y = (r1, t1) \<or> y = (r2, t2)
      \<or> syncLoop cfg latestBlock (i + SyncBatchSize cfg) t2 = Some y"
    by (subst (asm) syncLoop.simps) (auto simp: Let_def split: option.splits)
  then show ?thesis
  proof (elim disjE)
    assume "y = (r1, t1)"
    with p1 show ?thesis by simp
  next
    assume "y = (r2, t2)"
    with p1 p2 show ?thesis by (auto intro: prefix_order.trans)
  next
    assume "syncLoop cfg latestBlock (i + SyncBatchSize cfg) t2 = Some y"
    then have "prefix (calls t2) (calls (snd y))"
      by (rule syncLoop_calls)
    with p1 p2 show ?thesis by (blast intro: prefix_order.trans)
  qed
qed


text \<open>
  C3. The resync procedure (\<open>getNewState\<close>) runs its batches from
  \<open>lastProcessed + 1\<close>, where \<open>lastProcessed\<close> is the watermark of the container,
  except when \<open>latest.number - maxBacklog > lastProcessed\<close> (over the integers, so that
  the difference may be negative), in which case it runs them from
  \<open>latest.number - maxBacklog\<close>. If the first batch is not empty, the first block a
  returning resync requests from the provider is that start block. With
  \<open>lastProcessed = 5\<close>, \<open>latest.number = 10050\<close> and \<open>maxBacklog = 10000\<close> the
  resync starts at block 50, not 6.
\<close>

theorem getNewState_startBlock:
  "(let s = (if uint (Number latestBlock) - uint (MaxBacklogSize cfg)
                  > uint (LastProcessedBlock (blockContainer t))
             then Number latestBlock - MaxBacklogSize cfg
             else LastProcessedBlock (blockContainer t) + 1);
        endBlock = (if s + SyncBatchSize cfg > Number latestBlock
                    then Number latestBlock - 1 else s + SyncBatchSize cfg)
    in getNewState cfg t latestBlock =
         (case syncLoop cfg latestBlock s
                 ((called CleanState_call t)\<lparr>blockContainer := CleanState (blockContainer t)\<rparr>) of
            None \<Rightarrow> None
          | Some (Some err, t1) \<Rightarrow> Some (Some err, t1)
          | Some (None, t1) \<Rightarrow> Some (processLogs cfg (addBlock latestBlock t1)))
       \<and> (\<forall>r t'. getNewState cfg t latestBlock = Some (r, t')
              \<and> s \<le> Number latestBlock \<and> s < endBlock \<longrightarrow>
            prefix (calls t @ [CleanState_call, GetBlockByNumber_call s]) (calls t')))
   \<and> getNewState backlogConfig backlogTracker (chainBlock 10050)
       = Some (Some (Err ''no connection''),
           \<lparr>blockContainer =
              \<lparr>lastProcessed = 5, cache = map chainBlock [50, 51, 52], lastCached = 52\<rparr>,
            calls =
              [CleanState_call,
               GetBlockByNumber_call 50, AddBlock_call (chainBlock 50),
               GetBlockByNumber_call 51, AddBlock_call (chainBlock 51),
               GetBlockByNumber_call 52, AddBlock_call (chainBlock 52),
               GetBlockByNumber_call 53]\<rparr>)"
proof -
  let ?p = "LastProcessedBlock (blockContainer t)"
  let ?s = "startBlock cfg ?p latestBlock"
  let ?e = "if ?s + SyncBatchSize cfg > Number latestBlock
            then Number latestBlock - 1 else ?s + SyncBatchSize cfg"
  let ?t0 = "(called CleanState_call t)\<lparr>blockContainer := CleanState (blockContainer t)\<rparr>"
  have s: "?s = (if uint (Number latestBlock) - uint (MaxBacklogSize cfg) > uint ?p
             then Number latestBlock - MaxBacklogSize cfg else ?p + 1)"
    by (rule startBlock_clamp [THEN conjunct1])
  have unfold: "getNewState cfg t latestBlock =
         (case syncLoop cfg latestBlock ?s ?t0 of
            None \<Rightarrow> None
          | Some (Some err, t1) \<Rightarrow> Some (Some err, t1)
          | Some (None, t1) \<Rightarrow> Some (processLogs cfg (addBlock latestBlock t1)))"
    by (simp add: getNewState_def Let_def)
  have first: "prefix (calls t @ [CleanState_call, GetBlockByNumber_call ?s]) (calls t')"
    if run: "getNewState cfg t latestBlock = Some (r, t')"
      and le: "?s \<le> Number latestBlock" and lt: "?s < ?e" for r t'
  proof -
    from run obtain y where loop: "syncLoop cfg latestBlock ?s ?t0 = Some y"
      and after: "y = (r, t') \<or> (\<exists>t1. y = (None, t1) \<and> processLogs cfg (addBlock latestBlock t1) = (r, t'))"
      unfolding unfold by (auto split: option.splits prod.splits)
    have "prefix (calls ?t0 @ [GetBlockByNumber_call ?s]) (calls (snd y))"
      using loop le lt by (rule syncLoop_first_call)
    then have p0: "prefix (calls t @ [CleanState_call, GetBlockByNumber_call ?s]) (calls (snd y))"
      by (simp add: called_def)
    from after show ?thesis
    proof
      assume "y = (r, t')"
      with p0 show ?thesis by simp
    next
      assume "\<exists>t1. y = (None, t1) \<and> processLogs cfg (addBlock latestBlock t1) = (r, t')"
      then obtain t1 where y: "y = (None, t1)"
        and fin: "processLogs cfg (addBlock latestBlock t1) = (r, t')"
        by blast
      have "prefix (calls t1) (calls (addBlock latestBlock t1))"
        by (simp add: addBlock_def called_def)
      also have "prefix \<dots> (calls t')"
        using processLogs_calls [of "addBlock latestBlock t1" cfg] fin by simp
      finally show ?thesis
        using p0 y by (auto intro: prefix_order.trans)
    qed
  qed
  have inst: "getNewState backlogConfig backlogTracker (chainBlock 10050)
       = Some (Some (Err ''no connection''),
           \<lparr>blockContainer =
              \<lparr>lastProcessed = 5, cache = map chainBlock [50, 51, 52], lastCached = 52\<rparr>,
            calls =
              [CleanState_call,
               GetBlockByNumber_call 50, AddBlock_call (chainBlock 50),
               GetBlockByNumber_call 51, AddBlock_call (chainBlock 51),
               GetBlockByNumber_call 52, AddBlock_call (chainBlock 52),
               GetBlockByNumber_call 53]\<rparr>)"
    by code_simp
  show ?thesis
    unfolding Let_def s [symmetric]
    using unfold first inst by blast
qed

theorem getNewState_startBlock_witness:
  "uint (Number (chainBlock 10050)) - uint (MaxBacklogSize backlogConfig)
     > uint (LastProcessedBlock (blockContainer backlogTracker))
   \<and> Number (chainBlock 10050) - MaxBacklogSize backlogConfig = 50
   \<and> (50 :: uint64) \<le> Number (chainBlock 10050)
   \<and> (50 :: uint64) < (if 50 + SyncBatchSize backlogConfig > Number (chainBlock 10050)
                        then Number (chainBlock 10050) - 1 else 50 + SyncBatchSize backlogConfig)
   \<and> prefix (calls backlogTracker @ [CleanState_call, GetBlockByNumber_call 50])
        (calls (snd (the (getNewState backlogConfig backlogTracker (chainBlock 10050)))))"
proof -
  have h1: "uint (Number (chainBlock 10050)) - uint (MaxBacklogSize backlogConfig)
     > uint (LastProcessedBlock (blockContainer backlogTracker))"
    by (simp add: backlogConfig_def backlogTracker_def exampleConfig_def chainBlock_def
        NewTrackerBlockContainer_def LastProcessedBlock_def)
  have h2: "Number (chainBlock 10050) - MaxBacklogSize backlogConfig = 50"
    by (simp add: backlogConfig_def exampleConfig_def chainBlock_def)
  have h3: "(50 :: uint64) \<le> Number (chainBlock 10050)"
    by (simp add: chainBlock_def)
  have h4: "(50 :: uint64) < (if 50 + SyncBatchSize backlogConfig > Number (chainBlock 10050)
                        then Number (chainBlock 10050) - 1 else 50 + SyncBatchSize backlogConfig)"
    by (simp add: backlogConfig_def exampleConfig_def chainBlock_def)
  obtain r t' where run: "getNewState backlogConfig backlogTracker (chainBlock 10050) = Some (r, t')"
    using getNewState_startBlock [where latestBlock = "chainBlock 10050" and cfg = backlogConfig
        and t = backlogTracker, THEN conjunct2]
    by blast
  have s: "(if uint (Number (chainBlock 10050)) - uint (MaxBacklogSize backlogConfig)
                > uint (LastProcessedBlock (blockContainer backlogTracker))
            then Number (chainBlock 10050) - MaxBacklogSize backlogConfig
            else LastProcessedBlock (blockContainer backlogTracker) + 1) = 50"
    using h1 h2 by simp
  have "prefix (calls backlogTracker @ [CleanState_call, GetBlockByNumber_call 50]) (calls t')"
    using getNewState_startBlock [where latestBlock = "chainBlock 10050" and cfg = backlogConfig
        and t = backlogTracker, THEN conjunct1, unfolded Let_def s, THEN conjunct2, rule_format,
        of r t'] h3 h4 run
    by blast
  with run h1 h2 h3 h4 show ?thesis
    by simp
qed

text \<open>
  C1 does not hold of the code. The claim: the resync fetches every block number from
  \<open>startBlock\<close> up to, but not including, the number of the latest block, and on
  success the cache holds every block from \<open>startBlock\<close> through the latest one with no
  gaps. The run below starts at block 1 towards block 10 in batches of 5: the second
  batch ends at \<open>latest - 1\<close> exclusive, so blocks 1 to 8 are requested, block 9 never
  is, and the cache ends as 1 to 8 followed by 10.
\<close>

theorem getNewState_gap:
  "getNewState gapConfig gapTracker (chainBlock 10)
     = Some (None,
        \<lparr>blockContainer =
           \<lparr>lastProcessed = 0, cache = map chainBlock [1, 2, 3, 4, 5, 6, 7, 8, 10], lastCached = 10\<rparr>,
         calls =
           [CleanState_call,
            GetBlockByNumber_call 1, AddBlock_call (chainBlock 1),
            GetBlockByNumber_call 2, AddBlock_call (chainBlock 2),
            GetBlockByNumber_call 3, AddBlock_call (chainBlock 3),
            GetBlockByNumber_call 4, AddBlock_call (chainBlock 4),
            GetBlockByNumber_call 5, AddBlock_call (chainBlock 5),
            GetBlockByNumber_call 6, AddBlock_call (chainBlock 6),
            GetBlockByNumber_call 7, AddBlock_call (chainBlock 7),
            GetBlockByNumber_call 8, AddBlock_call (chainBlock 8),
            AddBlock_call (chainBlock 10)]\<rparr>)
   \<and> startBlock gapConfig (LastProcessedBlock (blockContainer gapTracker)) (chainBlock 10) = 1
   \<and> fetched (calls (snd (the (getNewState gapConfig gapTracker (chainBlock 10)))))
       = [1, 2, 3, 4, 5, 6, 7, 8]"
  by code_simp



section \<open>The pool of signed messages: deduplication and quorum\<close>

lemma countOf_msgsOf: "countOf b h = length (msgsOf b h)"
  by (simp add: countOf_def msgsOf_def split: option.splits)

lemma sigsKnown_new: "sigsKnown newBucket"
  by (simp add: sigsKnown_def newBucket_def)

lemma samSet_add_known:
  assumes "\<forall>sg. hasSignature s sg = (sg \<in> Signature ` set (messages s))"
  shows "hasSignature (samSet_add s m) sg = (sg \<in> Signature ` set (messages (samSet_add s m)))"
  using assms by (auto simp: samSet_add_def hasSignature_def Let_def)

lemma newSet_known: "hasSignature newSet sg = (sg \<in> Signature ` set (messages newSet))"
  by (simp add: newSet_def hasSignature_def)

lemma sigsKnown_add: "sigsKnown b \<Longrightarrow> sigsKnown (samBucket_add b m)"
  unfolding sigsKnown_def samBucket_add_def Let_def
  by (auto simp: samSet_add_known newSet_known split: option.splits)

lemma msgsOf_add:
  assumes "sigsKnown b"
  shows "msgsOf (samBucket_add b m) h =
           (if h = samHash m \<and> Signature m \<notin> Signature ` set (msgsOf b h)
            then msgsOf b h @ [m] else msgsOf b h)"
proof (cases "b (samHash m)")
  case None
  then show ?thesis
    by (simp add: msgsOf_def samBucket_add_def samSet_add_def samSet_get_def newSet_def
        hasSignature_def Let_def)
next
  case (Some s)
  with assms have "hasSignature s (Signature m) = (Signature m \<in> Signature ` set (messages s))"
    by (simp add: sigsKnown_def)
  with Some show ?thesis
    by (simp add: msgsOf_def samBucket_add_def samSet_add_def samSet_get_def Let_def)
qed

lemma addAll_snoc: "addAll (msgs @ [m]) = samBucket_add (addAll msgs) m"
  by (simp add: addAll_def)

lemma sigsKnown_addAll: "sigsKnown (addAll msgs)"
proof (induction msgs rule: rev_induct)
  case Nil
  then show ?case by (simp add: addAll_def sigsKnown_new)
next
  case (snoc m msgs)
  then show ?case by (simp add: addAll_snoc sigsKnown_add)
qed

lemma msgsOf_addAll:
  "distinct (map Signature (msgsOf (addAll msgs) h)) \<and>
   Signature ` set (msgsOf (addAll msgs) h) = Signature ` {m \<in> set msgs. samHash m = h}"
proof (induction msgs rule: rev_induct)
  case Nil
  then show ?case by (simp add: addAll_def newBucket_def msgsOf_def)
next
  case (snoc m msgs)
  have step: "msgsOf (addAll (msgs @ [m])) h =
      (if h = samHash m \<and> Signature m \<notin> Signature ` set (msgsOf (addAll msgs) h)
       then msgsOf (addAll msgs) h @ [m] else msgsOf (addAll msgs) h)"
    by (simp add: addAll_snoc msgsOf_add sigsKnown_addAll)
  show ?case
  proof (cases "h = samHash m")
    case True
    with snoc step show ?thesis by auto
  next
    case False
    with snoc step show ?thesis by auto
  qed
qed

lemma countOf_addAll:
  "countOf (addAll msgs) h = card (Signature ` {m \<in> set msgs. samHash m = h})"
proof -
  have "length (msgsOf (addAll msgs) h) = length (map Signature (msgsOf (addAll msgs) h))"
    by simp
  also have "\<dots> = card (set (map Signature (msgsOf (addAll msgs) h)))"
    using msgsOf_addAll [of msgs h] by (simp only: distinct_card)
  also have "\<dots> = card (Signature ` {m \<in> set msgs. samHash m = h})"
    using msgsOf_addAll [of msgs h] by simp
  finally show ?thesis by (simp add: countOf_msgsOf)
qed

lemma scanQuorum_None:
  "(scanQuorum quorum sets = None) = (\<forall>s \<in> set sets. \<not> quorum (of_nat (length (messages s))))"
  by (induction sets) (auto simp: samSet_get_def Let_def)

lemma scanQuorum_Some:
  "scanQuorum quorum sets = Some ms \<Longrightarrow>
     \<exists>s \<in> set sets. ms = messages s \<and> quorum (of_nat (length ms))"
  by (induction sets) (auto simp: samSet_get_def Let_def split: if_splits)

lemma set_map_filter_eq:
  "set (List.map_filter f xs) = {y. \<exists>x \<in> set xs. f x = Some y}"
  by (induction xs) (auto simp: map_filter_simps split: option.splits)

lemma set_map_filter_bucket:
  "set order = dom b \<Longrightarrow> set (List.map_filter b order) = ran b"
proof -
  assume cover: "set order = dom b"
  have "set (List.map_filter b order) = {s. \<exists>h \<in> set order. b h = Some s}"
    by (simp add: set_map_filter_eq)
  also have "\<dots> = {s. \<exists>h. b h = Some s}"
    using cover by blast
  finally show ?thesis by (simp add: ran_def)
qed

text \<open>
  C8. In a bucket built by \<open>add\<close> from a new bucket, the number of messages held for a
  subject is the number of distinct signatures sent for it. Hence adding a message whose
  signature the subject already has leaves the count unchanged, adding one with a new
  signature raises it by one, two messages with identical signature bytes give a set of
  size 1, and once the count of a subject satisfies the quorum predicate,
  \<open>getQuorumMessages\<close> returns a result.
\<close>

theorem quorum_pool_dedup:
  "countOf (addAll msgs) h = card (Signature ` {m \<in> set msgs. samHash m = h})
   \<and> countOf (samBucket_add (addAll msgs) m) (samHash m) =
       (if Signature m \<in> Signature ` {x \<in> set msgs. samHash x = samHash m}
        then countOf (addAll msgs) (samHash m)
        else countOf (addAll msgs) (samHash m) + 1)
   \<and> (samHash m2 = samHash m1 \<and> Signature m2 = Signature m1 \<longrightarrow>
        countOf (samBucket_add (samBucket_add newBucket m1) m2) (samHash m1) = 1)
   \<and> (set order = dom (addAll msgs) \<and> 0 < countOf (addAll msgs) h
        \<and> quorum (of_nat (countOf (addAll msgs) h)) \<longrightarrow>
        getQuorumMessages (addAll msgs) quorum order \<noteq> None)"
proof (intro conjI impI)
  show "countOf (addAll msgs) h = card (Signature ` {m \<in> set msgs. samHash m = h})"
    by (rule countOf_addAll)
next
  have "msgsOf (samBucket_add (addAll msgs) m) (samHash m) =
      (if Signature m \<notin> Signature ` set (msgsOf (addAll msgs) (samHash m))
       then msgsOf (addAll msgs) (samHash m) @ [m] else msgsOf (addAll msgs) (samHash m))"
    by (simp add: msgsOf_add sigsKnown_addAll)
  moreover have "Signature ` set (msgsOf (addAll msgs) (samHash m))
      = Signature ` {x \<in> set msgs. samHash x = samHash m}"
    using msgsOf_addAll [of msgs "samHash m"] by simp
  ultimately show "countOf (samBucket_add (addAll msgs) m) (samHash m) =
       (if Signature m \<in> Signature ` {x \<in> set msgs. samHash x = samHash m}
        then countOf (addAll msgs) (samHash m)
        else countOf (addAll msgs) (samHash m) + 1)"
    by (simp add: countOf_msgsOf)
next
  assume same: "samHash m2 = samHash m1 \<and> Signature m2 = Signature m1"
  have "samBucket_add (samBucket_add newBucket m1) m2 = addAll [m1, m2]"
    by (simp add: addAll_def)
  then have "countOf (samBucket_add (samBucket_add newBucket m1) m2) (samHash m1)
      = card (Signature ` {m \<in> set [m1, m2]. samHash m = samHash m1})"
    by (simp only: countOf_addAll)
  also have "{m \<in> set [m1, m2]. samHash m = samHash m1} = {m1, m2}"
    using same by auto
  also have "Signature ` {m1, m2} = {Signature m1}"
    using same by simp
  finally show "countOf (samBucket_add (samBucket_add newBucket m1) m2) (samHash m1) = 1"
    by simp
next
  assume a: "set order = dom (addAll msgs) \<and> 0 < countOf (addAll msgs) h
      \<and> quorum (of_nat (countOf (addAll msgs) h))"
  then obtain s where s: "addAll msgs h = Some s"
    by (auto simp: countOf_def split: option.splits)
  with a have "quorum (of_nat (length (messages s)))"
    by (simp add: countOf_def samSet_get_def)
  moreover from s have "s \<in> set (List.map_filter (addAll msgs) order)"
    using a by (simp add: set_map_filter_bucket ran_def) blast
  ultimately show "getQuorumMessages (addAll msgs) quorum order \<noteq> None"
    unfolding getQuorumMessages_def scanQuorum_None by blast
qed

theorem quorum_pool_dedup_witness:
  "(samHash (exampleSAM 1 [10] 1) = samHash (exampleSAM 1 [10] 0)
      \<and> Signature (exampleSAM 1 [10] 1) = Signature (exampleSAM 1 [10] 0))
   \<and> countOf (samBucket_add (samBucket_add newBucket (exampleSAM 1 [10] 0)) (exampleSAM 1 [10] 1)) 1 = 1
   \<and> (set [2, 1] = dom (addAll exampleMsgs) \<and> 0 < countOf (addAll exampleMsgs) 1
        \<and> (3::uint64) \<le> of_nat (countOf (addAll exampleMsgs) 1))
   \<and> getQuorumMessages (addAll exampleMsgs) (\<lambda>n. 3 \<le> n) [2, 1] \<noteq> None"
  using quorum_pool_dedup [of exampleMsgs 1 "exampleSAM 1 [10] 0" "exampleSAM 1 [10] 1"
      "exampleSAM 1 [10] 0" "[2, 1]" "\<lambda>n. 3 \<le> n", THEN conjunct2, THEN conjunct2]
  by (auto simp: exampleMsgs_def exampleSAM_def addAll_def samBucket_add_def samSet_add_def
      newBucket_def newSet_def hasSignature_def countOf_def samSet_get_def Let_def word_le_def)

text \<open>
  C9. Whatever the order in which the subjects are visited, \<open>getQuorumMessages\<close>
  returns \<open>nil\<close> if and only if no subject of the bucket has a message count that
  satisfies the predicate; a result that is not \<open>nil\<close> is the complete message list of
  a subject whose count satisfies it. In a bucket built by \<open>add\<close>, the message count of
  a subject is the number of its distinct signatures.
\<close>

theorem getQuorumMessages_quorum:
  assumes "set order = dom b"
  shows "((getQuorumMessages b quorum order = None)
            = (\<forall>h s. b h = Some s \<longrightarrow> \<not> quorum (of_nat (length (samSet_get s)))))
       \<and> (\<forall>ms. getQuorumMessages b quorum order = Some ms \<longrightarrow>
             (\<exists>h s. b h = Some s \<and> ms = samSet_get s \<and> quorum (of_nat (length ms))))
       \<and> (\<forall>msgs h s. b = addAll msgs \<and> b h = Some s \<longrightarrow>
             length (samSet_get s) = card (Signature ` set (samSet_get s)))"
proof (intro conjI allI impI)
  show "(getQuorumMessages b quorum order = None)
      = (\<forall>h s. b h = Some s \<longrightarrow> \<not> quorum (of_nat (length (samSet_get s))))"
    using assms
    by (auto simp: getQuorumMessages_def scanQuorum_None set_map_filter_bucket ran_def samSet_get_def)
next
  fix ms
  assume "getQuorumMessages b quorum order = Some ms"
  then obtain s where "s \<in> set (List.map_filter b order)" "ms = messages s"
      "quorum (of_nat (length ms))"
    unfolding getQuorumMessages_def by (blast dest: scanQuorum_Some)
  then show "\<exists>h s. b h = Some s \<and> ms = samSet_get s \<and> quorum (of_nat (length ms))"
    using assms by (auto simp: set_map_filter_bucket ran_def samSet_get_def)
next
  fix msgs h s
  assume r: "b = addAll msgs \<and> b h = Some s"
  then have "addAll msgs h = Some s"
    by blast
  then have "samSet_get s = msgsOf (addAll msgs) h"
    by (simp add: msgsOf_def)
  moreover have "distinct (map Signature (msgsOf (addAll msgs) h))"
    using msgsOf_addAll [of msgs h] by simp
  ultimately have "card (set (map Signature (samSet_get s))) = length (map Signature (samSet_get s))"
    by (simp only: distinct_card)
  then show "length (samSet_get s) = card (Signature ` set (samSet_get s))"
    by simp
qed

theorem getQuorumMessages_quorum_witness:
  "set [2, 1] = dom (addAll exampleMsgs)
   \<and> getQuorumMessages (addAll exampleMsgs) (\<lambda>n. 3 \<le> n) [2, 1]
       = Some [exampleSAM 1 [10] 0, exampleSAM 1 [11] 0, exampleSAM 1 [12] 0]
   \<and> getQuorumMessages (addAll exampleMsgs) (\<lambda>n. 4 \<le> n) [2, 1] = None
   \<and> (\<exists>s. addAll exampleMsgs 1 = Some s \<and> length (samSet_get s) = 3
          \<and> card (Signature ` set (samSet_get s)) = 3)"
  using getQuorumMessages_quorum [of "[2, 1]" "addAll exampleMsgs" "\<lambda>n. 3 \<le> n",
      THEN conjunct2, THEN conjunct1]
  by (auto simp: exampleMsgs_def exampleSAM_def addAll_def samBucket_add_def samSet_add_def
      newBucket_def newSet_def hasSignature_def samSet_get_def getQuorumMessages_def
      Let_def word_le_def)

end
